theory Spec2Isabelle
  imports Main "HOL-Library.Word" "HOL-Library.Signed_Division"
begin

section \<open>CarDashX: the serial decoder, the telemetry registers and the RPM bar\<close>

text \<open>
  The sketch \<^verbatim>\<open>CarDashX.ino\<close> runs on an AVR board (Uno or Nano): \<^verbatim>\<open>int\<close> and
  \<^verbatim>\<open>unsigned int\<close> are 16 bits wide, \<^verbatim>\<open>long\<close> 32 bits, \<^verbatim>\<open>byte\<close> 8 bits, and
  \<^verbatim>\<open>double\<close> is the IEEE single format. Its global variables are the fields of one
  record; every function of the sketch takes the record and returns the updated one.

  Conventions of the embedding.
  \<^item> \<^verbatim>\<open>unsigned int\<close> registers are \<open>16 word\<close>. The accumulator \<^verbatim>\<open>currentValue\<close> is a
    \<^verbatim>\<open>signed int\<close>; it is kept as a \<open>16 word\<close> as well, so that it wraps modulo \<open>2 ^ 16\<close>
    the way the AVR does, and its conversion to the \<^verbatim>\<open>unsigned int\<close> parameter of the
    \<^verbatim>\<open>process...\<close> functions is the identity on the bits.
  \<^item> \<^verbatim>\<open>long\<close> values (\<^verbatim>\<open>rpmleds\<close>, the arguments and the result of \<^verbatim>\<open>map\<close>) are \<open>int\<close>;
    lemma \<open>rpm_level_fits_long\<close> shows that no intermediate value leaves the 32-bit range.
  \<^item> A result of type \<open>option\<close> is \<open>None\<close> where the sketch has no defined result: \<^verbatim>\<open>map\<close>
    divides by zero, or the LED loop never ends.
  \<^item> Of the TM1638 module only the LED mask last given to \<^verbatim>\<open>setLEDs\<close> is kept
    (\<open>module_leds\<close>). The text sent to the seven-segment digits (\<^verbatim>\<open>printModule\<close>,
    \<^verbatim>\<open>setDisplayToString\<close>, \<^verbatim>\<open>clearDisplay\<close>, \<^verbatim>\<open>setupDisplay\<close>, \<^verbatim>\<open>dispIndicators\<close>) is
    write-only output that no variable of the sketch depends on; it is left out, and with it
    the tests of \<^verbatim>\<open>indicator[leftindicator]\<close> and \<^verbatim>\<open>indicator[rightindicator]\<close> that only
    decide whether a register is printed.
\<close>

subsection \<open>Global variables\<close>

datatype states =
  NONE | GOT_R | GOT_S | GOT_G | GOT_O | GOT_W | GOT_F | GOT_L | GOT_P
  | GOT_STOP | GOT_START | GOT_MAXRPM

record dash =
  carspeed :: "16 word"
  cargear :: "16 word"
  carrpm :: "16 word"
  caroil :: "16 word"
  carwater :: "16 word"
  carfuel :: "16 word"
  carlap :: "16 word"
  carpos :: "16 word"
  rpmleds :: int
  rpmmax :: "16 word"
  speedmultiplier :: bool
  leftindicator :: "8 word"
  rightindicator :: "8 word"
  rpmstyle :: "8 word"
  redleds :: "8 word"
  reverse :: bool
  state :: states
  currentValue :: "16 word"
  module_leds :: "16 word"
  eeprom :: "nat \<Rightarrow> 8 word"

text \<open>The table of selectable indicators, \<^verbatim>\<open>const byte indicator[]\<close>; \<^verbatim>\<open>sizeof(indicator)\<close> is its length.\<close>

definition indicator :: string where
  "indicator = ''SGROWFL''"

text \<open>The button masks \<^verbatim>\<open>btn1\<close> .. \<^verbatim>\<open>btn8\<close>.\<close>

definition btn1 :: "8 word" where "btn1 = 1"
definition btn2 :: "8 word" where "btn2 = 2"
definition btn3 :: "8 word" where "btn3 = 4"
definition btn4 :: "8 word" where "btn4 = 8"
definition btn5 :: "8 word" where "btn5 = 16"
definition btn6 :: "8 word" where "btn6 = 32"
definition btn7 :: "8 word" where "btn7 = 64"
definition btn8 :: "8 word" where "btn8 = 128"

text \<open>
  The variables as their initialisers leave them (statics without one are zero), before
  \<^verbatim>\<open>setup\<close> runs; the EEPROM content is whatever the board holds.
\<close>

definition power_on :: "(nat \<Rightarrow> 8 word) \<Rightarrow> dash" where
  "power_on rom =
     \<lparr> carspeed = 0, cargear = 0, carrpm = 0, caroil = 0, carwater = 0, carfuel = 0,
       carlap = 0, carpos = 0, rpmleds = 0, rpmmax = 1000, speedmultiplier = False,
       leftindicator = 0, rightindicator = 1, rpmstyle = 1, redleds = 3,
       reverse = False, state = NONE, currentValue = 0, module_leds = 0, eeprom = rom \<rparr>"

text \<open>\<^verbatim>\<open>setup\<close>: the configuration is read back from the EEPROM.\<close>

definition setup_board :: "dash \<Rightarrow> dash" where
  "setup_board m =
     m\<lparr> state := NONE,
        leftindicator := eeprom m 5,
        rightindicator := eeprom m 7,
        speedmultiplier := (eeprom m 9 \<noteq> 0),
        rpmstyle := eeprom m 11,
        redleds := eeprom m 13,
        module_leds := 0,
        reverse := False \<rparr>"

subsection \<open>Single-precision products\<close>

text \<open>
  \<^verbatim>\<open>rpmmax * 1.1\<close>, \<^verbatim>\<open>rpmmax * 0.75\<close>, \<^verbatim>\<open>rpmmax * 1.0\<close> and \<^verbatim>\<open>value * 3.6\<close> multiply an
  \<^verbatim>\<open>unsigned int\<close>, converted exactly, by a constant \<open>mant * 2 ^ -e\<close> of the single format
  (\<open>2 ^ 23 \<le> mant < 2 ^ 24\<close>). The exact product \<open>x * mant\<close> is rounded to 24 significant bits,
  to nearest and ties to even; the conversion to an integer type then truncates.
\<close>

function f32_shift :: "nat \<Rightarrow> nat" where
  "f32_shift n = (if n < 2 ^ 24 then 0 else Suc (f32_shift (n div 2)))"
  by pat_completeness auto
termination
  by (relation "measure id") auto

declare f32_shift.simps [simp del]

definition f32_round :: "nat \<Rightarrow> nat" where
  "f32_round n =
     (let s = f32_shift n; q = n div 2 ^ s; r = n mod 2 ^ s
      in (if 2 ^ s < 2 * r \<or> (2 * r = 2 ^ s \<and> odd q) then q + 1 else q) * 2 ^ s)"

definition mul_f32 :: "nat \<Rightarrow> nat \<Rightarrow> nat \<Rightarrow> nat" where
  "mul_f32 x mant e = f32_round (x * mant) div 2 ^ e"

text \<open>The four constants: \<open>1.1\<close> is \<open>0x8CCCCD * 2 ^ -23\<close>, \<open>3.6\<close> is \<open>0xE66666 * 2 ^ -22\<close>.\<close>

definition times_1_1 :: "nat \<Rightarrow> nat" where
  "times_1_1 x = mul_f32 x 9227469 23"

definition times_0_75 :: "nat \<Rightarrow> nat" where
  "times_0_75 x = mul_f32 x 12582912 24"

definition times_1_0 :: "nat \<Rightarrow> nat" where
  "times_1_0 x = mul_f32 x 8388608 23"

definition times_3_6 :: "nat \<Rightarrow> nat" where
  "times_3_6 x = mul_f32 x 15099494 22"

subsection \<open>The telemetry registers\<close>

definition processMaxRPM :: "16 word \<Rightarrow> dash \<Rightarrow> dash" where
  "processMaxRPM v m = m\<lparr>rpmmax := v\<rparr>"

text \<open>The literal \<^verbatim>\<open>50000\<close> does not fit an \<^verbatim>\<open>int\<close>, so the second comparison is made in \<^verbatim>\<open>long\<close>.\<close>

definition processRPM :: "16 word \<Rightarrow> dash \<Rightarrow> dash" where
  "processRPM v m =
     (let m1 = m\<lparr>carrpm := v\<rparr>
      in if rpmmax m1 < carrpm m1 \<and> uint (carrpm m1) < 50000
         then m1\<lparr>rpmmax := carrpm m1\<rparr> else m1)"

text \<open>
  The product is converted back to \<^verbatim>\<open>unsigned int\<close>; above 65535 the AVR keeps the low
  16 bits of the truncated value.
\<close>

definition processSpeed :: "16 word \<Rightarrow> dash \<Rightarrow> dash" where
  "processSpeed v m =
     (if speedmultiplier m then m\<lparr>carspeed := of_nat (times_3_6 (unat v))\<rparr>
      else m\<lparr>carspeed := v\<rparr>)"

definition processGear :: "16 word \<Rightarrow> dash \<Rightarrow> dash" where
  "processGear v m = m\<lparr>cargear := v\<rparr>"

definition processOil :: "16 word \<Rightarrow> dash \<Rightarrow> dash" where
  "processOil v m = m\<lparr>caroil := v\<rparr>"

definition processWater :: "16 word \<Rightarrow> dash \<Rightarrow> dash" where
  "processWater v m = m\<lparr>carwater := v\<rparr>"

definition processFuel :: "16 word \<Rightarrow> dash \<Rightarrow> dash" where
  "processFuel v m = m\<lparr>carfuel := v\<rparr>"

definition processLap :: "16 word \<Rightarrow> dash \<Rightarrow> dash" where
  "processLap v m = m\<lparr>carlap := v\<rparr>"

definition processPos :: "16 word \<Rightarrow> dash \<Rightarrow> dash" where
  "processPos v m = m\<lparr>carpos := v\<rparr>"

definition processStop :: "16 word \<Rightarrow> dash \<Rightarrow> dash" where
  "processStop v m = m\<lparr>module_leds := 0\<rparr>"

definition processStart :: "16 word \<Rightarrow> dash \<Rightarrow> dash" where
  "processStart v m = m\<lparr>module_leds := 0, rpmmax := 1000\<rparr>"

subsection \<open>The RPM bar\<close>

text \<open>
  \<^verbatim>\<open>map\<close> is the function of the Arduino core (\<^verbatim>\<open>WMath.cpp\<close>), not of the sketch:
  \<^verbatim>\<open>(x - in_min) * (out_max - out_min) / (in_max - in_min) + out_min\<close> on \<^verbatim>\<open>long\<close>, the
  division truncating towards zero. It does not clamp, and it divides by zero when the two
  input bounds are equal.
\<close>

definition map_long :: "int \<Rightarrow> int \<Rightarrow> int \<Rightarrow> int \<Rightarrow> int \<Rightarrow> int option" where
  "map_long x in_min in_max out_min out_max =
     (if in_max - in_min = 0 then None
      else Some ((x - in_min) * (out_max - out_min) sdiv (in_max - in_min) + out_min))"

text \<open>
  The \<^verbatim>\<open>switch (rpmstyle)\<close>: the value assigned to \<^verbatim>\<open>rpmleds\<close>. No case matches a style other
  than 0 and 1, and \<^verbatim>\<open>rpmleds\<close> keeps its value.
\<close>

definition rpm_level :: "dash \<Rightarrow> int option" where
  "rpm_level m =
     (if rpmstyle m = 0
      then map_long (uint (carrpm m)) 0 (int (times_1_1 (unat (rpmmax m)))) 0 10
      else if rpmstyle m = 1
      then map_long (uint (carrpm m)) (int (times_0_75 (unat (rpmmax m))))
             (int (times_1_0 (unat (rpmmax m)))) 0 10
      else Some (rpmleds m))"

text \<open>
  The body of the colouring loop. \<^verbatim>\<open>8 - redleds\<close> is an \<^verbatim>\<open>int\<close> and is converted to
  \<^verbatim>\<open>unsigned int\<close> for the comparison with \<^verbatim>\<open>i\<close>; \<^verbatim>\<open>i + 8\<close> is an \<^verbatim>\<open>unsigned int\<close>. A bit
  shifted beyond bit 15 is lost, as the shift instruction of the AVR loses it.
\<close>

definition led_step :: "16 word \<Rightarrow> int \<Rightarrow> 8 word \<Rightarrow> 16 word \<Rightarrow> 16 word" where
  "led_step i level red leds =
     (if 8 - ucast red \<le> i \<or> 9 \<le> level
      then leds + push_bit (unat (i + 8)) 1
      else leds + push_bit (unat i) 1)"

text \<open>
  \<^verbatim>\<open>for (i = 0; i < rpmleds; i++)\<close> with a 16-bit \<^verbatim>\<open>i\<close> compared in \<^verbatim>\<open>long\<close>: \<^verbatim>\<open>i\<close> wraps from
  65535 to 0, so the loop does not end when \<^verbatim>\<open>rpmleds\<close> is above 65535.
\<close>

partial_function (option) led_loop :: "16 word \<Rightarrow> int \<Rightarrow> 8 word \<Rightarrow> 16 word \<Rightarrow> 16 word option" where
  "led_loop i level red leds =
     (if uint i < level then led_loop (i + 1) level red (led_step i level red leds)
      else Some leds)"

declare led_loop.simps [code]

definition update_leds :: "dash \<Rightarrow> dash option" where
  "update_leds m =
     (case rpm_level m of
        None \<Rightarrow> None
      | Some level \<Rightarrow>
          (case led_loop 0 level (redleds m) 0 of
             None \<Rightarrow> None
           | Some leds \<Rightarrow> Some (m\<lparr>rpmleds := level, module_leds := leds\<rparr>)))"

subsection \<open>The decoder\<close>

definition handlePreviousState :: "dash \<Rightarrow> dash option" where
  "handlePreviousState m =
     map_option (\<lambda>m'. m'\<lparr>currentValue := 0\<rparr>)
       (case state m of
          GOT_MAXRPM \<Rightarrow> Some (processMaxRPM (currentValue m) m)
        | GOT_R \<Rightarrow> update_leds (processRPM (currentValue m) m)
        | GOT_W \<Rightarrow> Some (processWater (currentValue m) m)
        | GOT_F \<Rightarrow> Some (processFuel (currentValue m) m)
        | GOT_O \<Rightarrow> Some (processOil (currentValue m) m)
        | GOT_S \<Rightarrow> Some (processSpeed (currentValue m) m)
        | GOT_G \<Rightarrow> Some ((processGear (currentValue m) m)\<lparr>reverse := False\<rparr>)
        | GOT_L \<Rightarrow> Some (processLap (currentValue m) m)
        | GOT_P \<Rightarrow> Some (processPos (currentValue m) m)
        | GOT_START \<Rightarrow> Some (processStart (currentValue m) m)
        | GOT_STOP \<Rightarrow> Some (processStop (currentValue m) m)
        | NONE \<Rightarrow> Some m)"

definition isdigit :: "char \<Rightarrow> bool" where
  "isdigit c = (48 \<le> (of_char c :: nat) \<and> (of_char c :: nat) \<le> 57)"

text \<open>The \<^verbatim>\<open>switch (c)\<close> of \<^verbatim>\<open>processIncomingByte\<close>.\<close>

definition switch_byte :: "char \<Rightarrow> dash \<Rightarrow> dash" where
  "switch_byte c m =
     (if c = CHR ''-'' then m\<lparr>reverse := True, state := GOT_G\<rparr>
      else if c = CHR ''T'' then m\<lparr>state := GOT_MAXRPM\<rparr>
      else if c = CHR ''R'' then m\<lparr>state := GOT_R\<rparr>
      else if c = CHR ''S'' then m\<lparr>state := GOT_S\<rparr>
      else if c = CHR ''G'' then m\<lparr>state := GOT_G\<rparr>
      else if c = CHR ''O'' then m\<lparr>state := GOT_O\<rparr>
      else if c = CHR ''W'' then m\<lparr>state := GOT_W\<rparr>
      else if c = CHR ''F'' then m\<lparr>state := GOT_F\<rparr>
      else if c = CHR ''L'' then m\<lparr>state := GOT_L\<rparr>
      else if c = CHR ''P'' then m\<lparr>state := GOT_P\<rparr>
      else if c = CHR ''Z'' then m\<lparr>state := GOT_STOP\<rparr>
      else if c = CHR ''Y'' then m\<lparr>state := GOT_START\<rparr>
      else m\<lparr>state := NONE\<rparr>)"

definition processIncomingByte :: "char \<Rightarrow> dash \<Rightarrow> dash option" where
  "processIncomingByte c m =
     (if isdigit c
      then Some (m\<lparr>currentValue := currentValue m * 10 + (of_char c - 48)\<rparr>)
      else map_option (switch_byte c)
             (if c \<noteq> CHR ''-'' then handlePreviousState m else Some m))"

text \<open>\<^verbatim>\<open>while (Serial.available()) processIncomingByte(Serial.read());\<close>\<close>

fun feed :: "string \<Rightarrow> dash \<Rightarrow> dash option" where
  "feed [] m = Some m"
| "feed (c # cs) m =
     (case processIncomingByte c m of None \<Rightarrow> None | Some m' \<Rightarrow> feed cs m')"

text \<open>
  A completed command is what \<^verbatim>\<open>handlePreviousState\<close> finds when it is called in a state
  other than \<^verbatim>\<open>NONE\<close>: the pending state, the accumulated operand and the reverse latch.
  \<open>completes c m\<close> is the command completed when byte \<open>c\<close> arrives in \<open>m\<close>, if any, and
  \<open>decode\<close> collects them along a byte sequence.
\<close>

type_synonym command = "states \<times> 16 word \<times> bool"

definition completes :: "char \<Rightarrow> dash \<Rightarrow> command list" where
  "completes c m =
     (if isdigit c \<or> c = CHR ''-'' \<or> state m = NONE then []
      else [(state m, currentValue m, reverse m)])"

fun decode :: "string \<Rightarrow> dash \<Rightarrow> command list option" where
  "decode [] m = Some []"
| "decode (c # cs) m =
     (case processIncomingByte c m of
        None \<Rightarrow> None
      | Some m' \<Rightarrow> map_option (append (completes c m)) (decode cs m'))"

subsection \<open>The buttons\<close>

text \<open>
  The \<^verbatim>\<open>switch (buttons)\<close> of \<^verbatim>\<open>loop\<close>, entered when \<^verbatim>\<open>buttons\<close> is neither 0 nor 255. The
  sums are made in \<^verbatim>\<open>int\<close> and the results stored back into a \<^verbatim>\<open>byte\<close>.
\<close>

definition press :: "8 word \<Rightarrow> dash \<Rightarrow> dash" where
  "press buttons m =
     (if buttons = 0 \<or> buttons = 255 then m
      else if buttons = btn1
      then (if unat (leftindicator m) + 1 < length indicator
            then m\<lparr>leftindicator := leftindicator m + 1\<rparr> else m\<lparr>leftindicator := 0\<rparr>)
      else if buttons = btn2
      then (if unat (rightindicator m) + 1 < length indicator
            then m\<lparr>rightindicator := rightindicator m + 1\<rparr> else m\<lparr>rightindicator := 0\<rparr>)
      else if buttons = btn3 then m\<lparr>speedmultiplier := \<not> speedmultiplier m\<rparr>
      else if buttons = btn4 then m\<lparr>rpmstyle := of_nat ((unat (rpmstyle m) + 1) mod 2)\<rparr>
      else if buttons = btn5 then m\<lparr>redleds := of_nat ((unat (redleds m) + 1) mod 9)\<rparr>
      else if buttons = btn6 then m\<lparr>rpmmax := 1000\<rparr>
      else if buttons = btn8
      then m\<lparr>eeprom := (eeprom m)
              (5 := leftindicator m, 7 := rightindicator m,
               9 := (if speedmultiplier m then 1 else 0),
               11 := rpmstyle m, 13 := redleds m)\<rparr>
      else m)"

text \<open>The kind a slot selector denotes: \<^verbatim>\<open>indicator[i]\<close>, defined inside the table only.\<close>

definition slot_kind :: "8 word \<Rightarrow> char option" where
  "slot_kind i = (if unat i < length indicator then Some (indicator ! unat i) else None)"

subsection \<open>Notions used in the statements\<close>

text \<open>
  A board whose EEPROM holds the default configuration (as button 8 saves it: left slot 0,
  right slot 1, multiplier off, style 1, three red LEDs), after \<^verbatim>\<open>setup\<close>.
\<close>

definition default_rom :: "nat \<Rightarrow> 8 word" where
  "default_rom = (\<lambda>a. 255)(5 := 0, 7 := 1, 9 := 0, 11 := 1, 13 := 3)"

definition booted :: dash where
  "booted = setup_board (power_on default_rom)"

text \<open>The telemetry registers, with the auto-calibrated ceiling, and the snapshot with the latch.\<close>

definition registers :: "dash \<Rightarrow> 16 word list" where
  "registers m =
     [carspeed m, cargear m, carrpm m, caroil m, carwater m, carfuel m, carlap m, carpos m,
      rpmmax m]"

definition snapshot :: "dash \<Rightarrow> 16 word list \<times> bool" where
  "snapshot m = (registers m, reverse m)"

text \<open>
  The register update of the pending command: the \<^verbatim>\<open>process...\<close> function that
  \<^verbatim>\<open>handlePreviousState\<close> calls in each state, on the accumulated operand.
\<close>

definition pending_update :: "dash \<Rightarrow> dash" where
  "pending_update m =
     (case state m of
        GOT_MAXRPM \<Rightarrow> processMaxRPM (currentValue m) m
      | GOT_R \<Rightarrow> processRPM (currentValue m) m
      | GOT_W \<Rightarrow> processWater (currentValue m) m
      | GOT_F \<Rightarrow> processFuel (currentValue m) m
      | GOT_O \<Rightarrow> processOil (currentValue m) m
      | GOT_S \<Rightarrow> processSpeed (currentValue m) m
      | GOT_G \<Rightarrow> processGear (currentValue m) m
      | GOT_L \<Rightarrow> processLap (currentValue m) m
      | GOT_P \<Rightarrow> processPos (currentValue m) m
      | GOT_START \<Rightarrow> processStart (currentValue m) m
      | GOT_STOP \<Rightarrow> processStop (currentValue m) m
      | NONE \<Rightarrow> m)"

text \<open>The base-10 integer that a sequence of digit bytes spells: the sum of \<open>d\<^sub>i * 10 ^ (n - i)\<close>.\<close>

definition digit_val :: "char \<Rightarrow> nat" where
  "digit_val c = of_char c - 48"

definition spelt :: "string \<Rightarrow> nat" where
  "spelt ds = (\<Sum>i < length ds. digit_val (ds ! i) * 10 ^ (length ds - Suc i))"

text \<open>The operand of a completed command, read as an \<^verbatim>\<open>unsigned int\<close>.\<close>

definition operand :: "command \<Rightarrow> nat" where
  "operand k = unat (fst (snd k))"

text \<open>
  The bounds of the domain that the \<^verbatim>\<open>switch (rpmstyle)\<close> hands to \<^verbatim>\<open>map\<close> as \<^verbatim>\<open>in_min\<close>
  and \<^verbatim>\<open>in_max\<close>, for the styles 0 and 1.
\<close>

definition bar_floor :: "dash \<Rightarrow> int" where
  "bar_floor m = (if rpmstyle m = 0 then 0 else int (times_0_75 (unat (rpmmax m))))"

definition bar_ceiling :: "dash \<Rightarrow> int" where
  "bar_ceiling m =
     (if rpmstyle m = 0 then int (times_1_1 (unat (rpmmax m)))
      else int (times_1_0 (unat (rpmmax m))))"

text \<open>The values of a 32-bit \<^verbatim>\<open>long\<close>.\<close>

definition fits_long :: "int \<Rightarrow> bool" where
  "fits_long k = (- (2 ^ 31) \<le> k \<and> k < 2 ^ 31)"

section \<open>Properties\<close>

subsection \<open>Single-precision products\<close>

lemma f32_shift_le: "n < 2 ^ (24 + k) \<Longrightarrow> f32_shift n \<le> k"
proof (induction k arbitrary: n)
  case 0
  then show ?case by (subst f32_shift.simps) simp
next
  case (Suc k)
  show ?case
  proof (cases "n < 2 ^ 24")
    case True
    then show ?thesis by (subst f32_shift.simps) simp
  next
    case False
    from Suc.prems have "n < 2 * 2 ^ (24 + k)" by (simp only: add_Suc_right power_Suc)
    then have "n div 2 < 2 ^ (24 + k)" by linarith
    then have "f32_shift (n div 2) \<le> k" by (rule Suc.IH)
    with False show ?thesis by (subst f32_shift.simps) simp
  qed
qed

lemma f32_shift_pow_le: "n \<noteq> 0 \<Longrightarrow> 2 ^ f32_shift n \<le> n"
proof (induction n rule: f32_shift.induct)
  case (1 n)
  show ?case
  proof (cases "n < 2 ^ 24")
    case True
    with "1.prems" show ?thesis by (subst f32_shift.simps) simp
  next
    case False
    then have nz: "n div 2 \<noteq> 0" by simp
    have "2 ^ f32_shift (n div 2) \<le> n div 2" using "1.IH" False nz by simp
    then have "2 * 2 ^ f32_shift (n div 2) \<le> n" by simp
    with False show ?thesis by (subst f32_shift.simps) simp
  qed
qed

lemma f32_round_exact: "2 ^ f32_shift n dvd n \<Longrightarrow> f32_round n = n"
  by (auto simp: f32_round_def Let_def mod_eq_0_iff_dvd)

lemma f32_round_lower:
  assumes "2 ^ f32_shift n dvd a" and "a \<le> n"
  shows "a \<le> f32_round n"
proof -
  define s where "s = f32_shift n"
  from assms(1) obtain b where b: "a = 2 ^ s * b" unfolding s_def by (auto simp: dvd_def)
  with assms(2) have "b \<le> n div 2 ^ s"
    by (simp add: less_eq_div_iff_mult_less_eq mult.commute)
  then have "a \<le> (n div 2 ^ s) * 2 ^ s" using b by simp
  also have "\<dots> \<le> f32_round n" by (simp add: f32_round_def Let_def s_def)
  finally show ?thesis .
qed

lemma f32_round_upper: "f32_round n \<le> 2 * n"
proof (cases "n = 0")
  case True
  then show ?thesis by (simp add: f32_round_def Let_def)
next
  case False
  define s where "s = f32_shift n"
  have "2 ^ s \<le> n" unfolding s_def using False by (rule f32_shift_pow_le)
  then have q: "1 \<le> n div 2 ^ s" by (simp add: less_eq_div_iff_mult_less_eq)
  have "f32_round n \<le> (n div 2 ^ s + 1) * 2 ^ s" by (simp add: f32_round_def Let_def s_def)
  also have "\<dots> \<le> (2 * (n div 2 ^ s)) * 2 ^ s" using q by (intro mult_right_mono) auto
  also have "\<dots> \<le> 2 * n" by (simp add: mult.assoc)
  finally show ?thesis .
qed

lemma times_0_75_eq: assumes "x < 65536" shows "times_0_75 x = 3 * x div 4"
proof -
  have n: "x * 12582912 = 2 ^ 22 * (3 * x)" by simp
  have "x * 12582912 < 2 ^ (24 + 16)" using assms by simp
  then have "f32_shift (x * 12582912) \<le> 16" by (rule f32_shift_le)
  then have "(2::nat) ^ f32_shift (x * 12582912) dvd 2 ^ 22" by (intro le_imp_power_dvd) simp
  then have "2 ^ f32_shift (x * 12582912) dvd x * 12582912" unfolding n by (rule dvd_mult2)
  then have "f32_round (x * 12582912) = x * 12582912" by (rule f32_round_exact)
  then have "times_0_75 x = (x * 12582912) div 2 ^ 24" by (simp only: times_0_75_def mul_f32_def)
  then show ?thesis by simp
qed

lemma times_1_0_eq: assumes "x < 65536" shows "times_1_0 x = x"
proof -
  have n: "x * 8388608 = 2 ^ 23 * x" by simp
  have "x * 8388608 < 2 ^ (24 + 16)" using assms by simp
  then have "f32_shift (x * 8388608) \<le> 16" by (rule f32_shift_le)
  then have "(2::nat) ^ f32_shift (x * 8388608) dvd 2 ^ 23" by (intro le_imp_power_dvd) simp
  then have "2 ^ f32_shift (x * 8388608) dvd x * 8388608" unfolding n by (rule dvd_mult2)
  then have "f32_round (x * 8388608) = x * 8388608" by (rule f32_round_exact)
  then have "times_1_0 x = (x * 8388608) div 2 ^ 23" by (simp only: times_1_0_def mul_f32_def)
  then show ?thesis by simp
qed

lemma times_1_1_lower: assumes "x < 65536" shows "x \<le> times_1_1 x"
proof -
  have "x * 9227469 < 2 ^ (24 + 16)" using assms by simp
  then have "f32_shift (x * 9227469) \<le> 16" by (rule f32_shift_le)
  then have "(2::nat) ^ f32_shift (x * 9227469) dvd 2 ^ 23" by (intro le_imp_power_dvd) simp
  then have "2 ^ f32_shift (x * 9227469) dvd 2 ^ 23 * x" by (rule dvd_mult2)
  moreover have "2 ^ 23 * x \<le> x * 9227469" by simp
  ultimately have "2 ^ 23 * x \<le> f32_round (x * 9227469)" by (rule f32_round_lower)
  then have "x \<le> f32_round (x * 9227469) div 2 ^ 23"
    by (simp add: less_eq_div_iff_mult_less_eq mult.commute)
  then show ?thesis by (simp add: times_1_1_def mul_f32_def)
qed

lemma times_1_1_upper: assumes "x < 65536" shows "times_1_1 x < 144180"
proof -
  have "f32_round (x * 9227469) \<le> 2 * (x * 9227469)" by (rule f32_round_upper)
  also have "\<dots> < 144180 * 2 ^ 23" using assms by simp
  finally have "f32_round (x * 9227469) div 2 ^ 23 < 144180"
    by (simp add: div_less_iff_less_mult)
  then show ?thesis by (simp add: times_1_1_def mul_f32_def)
qed

lemma f32_round_le_add: "f32_round n \<le> n + 2 ^ f32_shift n"
proof -
  define s where "s = f32_shift n"
  have "f32_round n \<le> (n div 2 ^ s + 1) * 2 ^ s"
    by (simp add: f32_round_def Let_def s_def)
  also have "\<dots> = n div 2 ^ s * 2 ^ s + 2 ^ s" by (simp add: algebra_simps)
  also have "\<dots> \<le> n + 2 ^ s" by simp
  finally show ?thesis by (simp only: s_def)
qed

lemma eleven_tenths_lower: "(11 * x div 10) * 8388608 \<le> x * (9227469::nat)"
  by linarith

lemma eleven_tenths_upper:
  assumes "x < 65536"
  shows "x * 9227469 + 65536 < (11 * x div 10 + 1) * (8388608::nat)"
proof -
  define d where "d = 11 * x div 10"
  have "11 * x < 10 * d + 10" unfolding d_def by linarith
  with assms have "x * 9227469 + 65536 < d * 8388608 + 8388608" by linarith
  then show ?thesis by (simp add: d_def)
qed

lemma times_1_1_eq: assumes "x < 65536" shows "times_1_1 x = 11 * x div 10"
proof -
  let ?n = "x * 9227469"
  have "?n < 2 ^ (24 + 16)" using assms by simp
  then have s: "f32_shift ?n \<le> 16" by (rule f32_shift_le)
  then have "(2::nat) ^ f32_shift ?n dvd 2 ^ 23" by (intro le_imp_power_dvd) simp
  then have "2 ^ f32_shift ?n dvd (11 * x div 10) * 2 ^ 23" by (rule dvd_mult)
  moreover have "(11 * x div 10) * 2 ^ 23 \<le> ?n"
    using eleven_tenths_lower [of x] by simp
  ultimately have "(11 * x div 10) * 2 ^ 23 \<le> f32_round ?n" by (rule f32_round_lower)
  then have lo: "11 * x div 10 \<le> f32_round ?n div 2 ^ 23"
    by (simp add: less_eq_div_iff_mult_less_eq)
  from s have "(2::nat) ^ f32_shift ?n \<le> 2 ^ 16" by (intro power_increasing) simp_all
  with f32_round_le_add [of ?n] have "f32_round ?n \<le> ?n + 65536" by simp
  also have "\<dots> < (11 * x div 10 + 1) * 2 ^ 23"
    using eleven_tenths_upper [OF assms] by simp
  finally have "f32_round ?n div 2 ^ 23 < 11 * x div 10 + 1"
    by (simp add: div_less_iff_less_mult)
  with lo show ?thesis by (simp add: times_1_1_def mul_f32_def)
qed

subsection \<open>Truncating division\<close>

lemma sdiv_pos: "0 \<le> a \<Longrightarrow> 0 < d \<Longrightarrow> a sdiv d = a div (d::int)"
  by (simp add: signed_divide_int_def sgn_if)

lemma sdiv_neg_le: "a \<le> 0 \<Longrightarrow> 0 < d \<Longrightarrow> a sdiv d \<le> (0::int)"
  by (simp add: signed_divide_int_def sgn_if pos_imp_zdiv_nonneg_iff)

lemma sdiv_le:
  assumes "0 < d" and "a \<le> k * d" and "0 \<le> k"
  shows "a sdiv d \<le> (k::int)"
proof (cases "0 \<le> a")
  case True
  from assms(2) have "a div d \<le> k * d div d"
    by (rule zdiv_mono1) (rule assms(1))
  with True assms(1) show ?thesis by (simp add: sdiv_pos)
next
  case False
  then have "a sdiv d \<le> 0" using assms(1) by (intro sdiv_neg_le) simp_all
  with assms(3) show ?thesis by simp
qed

lemma sdiv_ge:
  assumes "0 < d" and "k * d \<le> a" and "0 \<le> k"
  shows "(k::int) \<le> a sdiv d"
proof -
  from assms have nn: "0 \<le> a" by (meson mult_nonneg_nonneg order_trans less_imp_le)
  from assms(2) have "k * d div d \<le> a div d"
    by (rule zdiv_mono1) (rule assms(1))
  with nn assms(1) show ?thesis by (simp add: sdiv_pos)
qed

lemma sdiv_abs_le:
  assumes "0 < d"
  shows "\<bar>a sdiv d\<bar> \<le> \<bar>a::int\<bar>"
proof -
  have "\<bar>a\<bar> div d \<le> \<bar>a\<bar> div 1"
    using assms by (intro zdiv_mono2) simp_all
  moreover have "\<bar>a sdiv d\<bar> = \<bar>a\<bar> div d"
    using assms by (simp add: signed_divide_int_def sgn_if abs_mult pos_imp_zdiv_nonneg_iff)
  ultimately show ?thesis by simp
qed

lemma sdiv_neg_lt:
  assumes "0 < d" and "a \<le> - d"
  shows "a sdiv d < (0::int)"
proof -
  from assms have "d \<le> \<bar>a\<bar>" by simp
  then have "d div d \<le> \<bar>a\<bar> div d" by (rule zdiv_mono1) (rule assms(1))
  with assms(1) have "1 \<le> \<bar>a\<bar> div d" by simp
  moreover from assms have "a < 0" by simp
  ultimately show ?thesis using assms(1) by (simp add: signed_divide_int_def sgn_if)
qed

lemma sdiv_self_times: "0 < d \<Longrightarrow> d * 10 sdiv d = (10::int)"
  by (simp add: sdiv_pos)

lemma scale_props:
  fixes x lo hi :: int
  assumes "lo < hi"
  defines "L \<equiv> (x - lo) * (10 - 0) sdiv (hi - lo) + 0"
  shows "(x \<le> lo \<longrightarrow> L \<le> 0) \<and> (lo \<le> x \<longrightarrow> 0 \<le> L)
    \<and> (x \<le> hi \<longrightarrow> L \<le> 10) \<and> (hi \<le> x \<longrightarrow> 10 \<le> L)"
proof -
  have d: "0 < hi - lo" using assms(1) by simp
  have L: "L = (x - lo) * 10 sdiv (hi - lo)" by (simp add: L_def)
  have "L \<le> 0" if "x \<le> lo"
    unfolding L using d by (rule sdiv_le) (use that in simp_all)
  moreover have "0 \<le> L" if "lo \<le> x"
    unfolding L using d by (rule sdiv_ge) (use that in simp_all)
  moreover have "L \<le> 10" if "x \<le> hi"
    unfolding L using d by (rule sdiv_le) (use that in simp_all)
  moreover have "10 \<le> L" if "hi \<le> x"
    unfolding L using d by (rule sdiv_ge) (use that in simp_all)
  ultimately show ?thesis by blast
qed

lemma scale_bound:
  "0 \<le> u \<Longrightarrow> u < 65536 \<Longrightarrow> 0 \<le> f \<Longrightarrow> f < 144180 \<Longrightarrow> \<bar>(u - f) * 10\<bar> < (1441800::int)"
  by (simp add: abs_less_iff)

lemma diff_bound:
  "0 \<le> u \<Longrightarrow> u < 144180 \<Longrightarrow> 0 \<le> f \<Longrightarrow> f < 144180 \<Longrightarrow> \<bar>u - f\<bar> < (1441800::int)"
  by (simp add: abs_less_iff)

lemma fits_long_abs: "\<bar>k\<bar> < 1441800 \<Longrightarrow> fits_long k"
  by (simp add: fits_long_def abs_less_iff)

subsection \<open>The telemetry registers\<close>

lemma processRPM_carrpm: "carrpm (processRPM v m) = v"
  by (simp add: processRPM_def Let_def)

lemma processRPM_rpmmax:
  "rpmmax (processRPM v m) = (if rpmmax m < v \<and> uint v < 50000 then v else rpmmax m)"
  by (simp add: processRPM_def Let_def)

lemma processRPM_eq:
  "processRPM v m =
     m\<lparr>carrpm := v, rpmmax := (if rpmmax m < v \<and> uint v < 50000 then v else rpmmax m)\<rparr>"
  by (simp add: processRPM_def Let_def)


lemma processRPM_mono: "rpmmax m \<le> rpmmax (processRPM v m)"
  by (auto simp: processRPM_eq less_imp_le)


lemma processRPM_idem: "processRPM v (processRPM v m) = processRPM v m"
  by (auto simp: processRPM_eq)

lemma processRPM_frame:
  "processRPM v (m\<lparr>rpmleds := a, module_leds := b, currentValue := c\<rparr>) =
   (processRPM v m)\<lparr>rpmleds := a, module_leds := b, currentValue := c\<rparr>"
  by (simp add: processRPM_eq)

subsection \<open>The level of the RPM bar\<close>

lemma unat_16_lt: "unat (w :: 16 word) < 65536"
  using unsigned_less [of w, where ?'a = nat] by simp

lemma bar_floor_style1:
  assumes "rpmstyle m = 1"
  shows "bar_floor m = 3 * uint (rpmmax m) div 4"
proof -
  have "bar_floor m = int (3 * unat (rpmmax m) div 4)"
    using assms by (simp add: bar_floor_def times_0_75_eq [OF unat_16_lt])
  also have "\<dots> = 3 * int (unat (rpmmax m)) div 4"
    by (simp add: zdiv_int)
  finally show ?thesis by simp
qed

lemma bar_ceiling_style1: "rpmstyle m = 1 \<Longrightarrow> bar_ceiling m = uint (rpmmax m)"
  by (simp add: bar_ceiling_def times_1_0_eq [OF unat_16_lt])

lemma bar_floor_style0: "rpmstyle m = 0 \<Longrightarrow> bar_floor m = 0"
  by (simp add: bar_floor_def)

lemma bar_ceiling_style0:
  "rpmstyle m = 0 \<Longrightarrow> uint (rpmmax m) \<le> bar_ceiling m \<and> bar_ceiling m < 144180"
proof -
  assume s: "rpmstyle m = 0"
  have "int (unat (rpmmax m)) \<le> int (times_1_1 (unat (rpmmax m)))"
    using times_1_1_lower [OF unat_16_lt, of "rpmmax m"] by (simp only: of_nat_le_iff)
  moreover have "int (times_1_1 (unat (rpmmax m))) < int 144180"
    using times_1_1_upper [OF unat_16_lt, of "rpmmax m"] by (simp only: of_nat_less_iff)
  ultimately show ?thesis using s by (simp add: bar_ceiling_def)
qed

lemma bar_ceiling_style0_eq:
  assumes "rpmstyle m = 0"
  shows "bar_ceiling m = 11 * uint (rpmmax m) div 10"
proof -
  have "bar_ceiling m = int (11 * unat (rpmmax m) div 10)"
    using assms by (simp add: bar_ceiling_def times_1_1_eq [OF unat_16_lt])
  also have "\<dots> = 11 * int (unat (rpmmax m)) div 10"
    by (simp add: zdiv_int)
  finally show ?thesis by simp
qed

lemma rpm_level_eq:
  "rpmstyle m = 0 \<or> rpmstyle m = 1 \<Longrightarrow>
   rpm_level m = map_long (uint (carrpm m)) (bar_floor m) (bar_ceiling m) 0 10"
  by (auto simp: rpm_level_def bar_floor_def bar_ceiling_def)

lemma bar_domain:
  assumes "rpmstyle m = 0 \<or> rpmstyle m = 1"
  shows "0 \<le> bar_floor m \<and> bar_floor m \<le> bar_ceiling m
    \<and> uint (rpmmax m) \<le> bar_ceiling m \<and> bar_ceiling m < 144180
    \<and> (rpmmax m \<noteq> 0 \<longrightarrow> bar_floor m < bar_ceiling m)"
proof -
  have r: "0 \<le> uint (rpmmax m)" "uint (rpmmax m) < 65536"
    using uint_lt2p [of "rpmmax m"] by simp_all
  have nz: "rpmmax m \<noteq> 0 \<longrightarrow> 0 < uint (rpmmax m)"
    by (simp add: word_neq_0_conv word_less_def)
  from assms show ?thesis
  proof
    assume s: "rpmstyle m = 0"
    with bar_ceiling_style0 [OF s] r nz show ?thesis
      by (auto simp: bar_floor_style0)
  next
    assume s: "rpmstyle m = 1"
    with r nz show ?thesis
      by (auto simp: bar_floor_style1 bar_ceiling_style1)
  qed
qed

lemma rpm_level_zero_ceiling:
  "rpmstyle m = 0 \<or> rpmstyle m = 1 \<Longrightarrow> rpmmax m = 0 \<Longrightarrow> rpm_level m = None"
proof -
  have "f32_shift 0 = 0" by (subst f32_shift.simps) simp
  then have "f32_round 0 = 0" by (simp add: f32_round_def)
  then show "rpmstyle m = 0 \<or> rpmstyle m = 1 \<Longrightarrow> rpmmax m = 0 \<Longrightarrow> rpm_level m = None"
    by (auto simp: rpm_level_def map_long_def times_1_1_def times_0_75_def times_1_0_def
        mul_f32_def)
qed

lemma rpm_level_fits_long:
  assumes "rpmstyle m = 0 \<or> rpmstyle m = 1"
  shows "fits_long (uint (carrpm m) - bar_floor m)
    \<and> fits_long ((uint (carrpm m) - bar_floor m) * (10 - 0))
    \<and> fits_long (bar_ceiling m - bar_floor m)
    \<and> (\<forall>level. rpm_level m = Some level \<longrightarrow> fits_long level)"
proof -
  have x: "0 \<le> uint (carrpm m)" "uint (carrpm m) < 65536"
    using uint_lt2p [of "carrpm m"] by simp_all
  note d = bar_domain [OF assms]
  from d have d1: "0 \<le> bar_floor m" "bar_floor m \<le> bar_ceiling m" "bar_ceiling m < 144180"
    by simp_all
  from d1 have "bar_floor m < 144180" by linarith
  with x d1(1) have a: "\<bar>(uint (carrpm m) - bar_floor m) * 10\<bar> < 1441800"
    by (rule scale_bound)
  have f: "bar_floor m < 144180" using d1 by linarith
  have "fits_long level" if l: "rpm_level m = Some level" for level
  proof -
    from l have ne: "bar_ceiling m - bar_floor m \<noteq> 0"
      and lv: "level = (uint (carrpm m) - bar_floor m) * 10 sdiv (bar_ceiling m - bar_floor m)"
      by (auto simp: rpm_level_eq [OF assms] map_long_def split: if_splits)
    from ne d1 have "0 < bar_ceiling m - bar_floor m" by simp
    then have "\<bar>level\<bar> \<le> \<bar>(uint (carrpm m) - bar_floor m) * 10\<bar>"
      unfolding lv by (rule sdiv_abs_le)
    with a have "\<bar>level\<bar> < 1441800" by linarith
    then show ?thesis by (rule fits_long_abs)
  qed
  moreover have "fits_long (uint (carrpm m) - bar_floor m)"
    using x d1(1) f by (intro fits_long_abs diff_bound) simp_all
  moreover have "fits_long ((uint (carrpm m) - bar_floor m) * (10 - 0))"
    using a by (simp add: fits_long_abs)
  moreover have "fits_long (bar_ceiling m - bar_floor m)"
    using d1 f by (intro fits_long_abs diff_bound) simp_all
  ultimately show ?thesis by blast
qed


lemma rpm_level_after:
  "rpm_level m = Some level \<Longrightarrow>
   rpm_level (m\<lparr>rpmleds := level, module_leds := b, currentValue := c\<rparr>) = Some level"
  by (auto simp: rpm_level_def split: if_splits)

subsection \<open>The colouring loop\<close>

lemma led_loop_stop: "level \<le> uint i \<Longrightarrow> led_loop i level red leds = Some leds"
  by (subst led_loop.simps) simp


lemma led_loop_Some_bound:
  assumes "led_loop i level red leds = Some l"
  shows "level \<le> 65535"
proof (rule led_loop.raw_induct [where P = "\<lambda>i level red leds l. level \<le> 65535", OF _ assms])
  fix f :: "16 word \<Rightarrow> int \<Rightarrow> 8 word \<Rightarrow> 16 word \<Rightarrow> 16 word option"
  fix i level red leds l
  assume IH: "\<And>i level red leds y. f i level red leds = Some y \<Longrightarrow> level \<le> 65535"
    and eq: "(if uint i < level then f (i + 1) level red (led_step i level red leds)
             else Some leds) = Some l"
  show "level \<le> 65535"
  proof (cases "uint i < level")
    case True
    with eq have "f (i + 1) level red (led_step i level red leds) = Some l" by simp
    then show ?thesis by (rule IH)
  next
    case False
    moreover have "uint i \<le> 65535" using uint_lt2p [of i] by simp
    ultimately show ?thesis by linarith
  qed
qed

lemma led_loop_never_ends: "65535 < level \<Longrightarrow> led_loop i level red leds = None"
  using led_loop_Some_bound [of i level red leds] by (cases "led_loop i level red leds") auto



lemma red_mask: "(0xFF00 :: 16 word) = push_bit 8 (mask 8)"
  by (simp add: mask_eq_exp_minus_1)

subsection \<open>The decoder\<close>

lemma isdigit_minus: "\<not> isdigit CHR ''-''"
  by (simp add: isdigit_def)

lemma processIncomingByte_digit:
  "isdigit c \<Longrightarrow>
   processIncomingByte c m = Some (m\<lparr>currentValue := currentValue m * 10 + (of_char c - 48)\<rparr>)"
  by (simp add: processIncomingByte_def)

lemma processIncomingByte_minus:
  "processIncomingByte CHR ''-'' m = Some (m\<lparr>reverse := True, state := GOT_G\<rparr>)"
  by (simp add: processIncomingByte_def isdigit_minus switch_byte_def)

lemma processIncomingByte_other:
  "\<not> isdigit c \<Longrightarrow> c \<noteq> CHR ''-'' \<Longrightarrow>
   processIncomingByte c m = map_option (switch_byte c) (handlePreviousState m)"
  by (simp add: processIncomingByte_def)

lemma switch_byte_currentValue: "currentValue (switch_byte c m) = currentValue m"
  by (simp add: switch_byte_def)

lemma switch_byte_reverse: "c \<noteq> CHR ''-'' \<Longrightarrow> reverse (switch_byte c m) = reverse m"
  by (simp add: switch_byte_def)


lemma handlePreviousState_NONE:
  "state m = NONE \<Longrightarrow> handlePreviousState m = Some (m\<lparr>currentValue := 0\<rparr>)"
  by (simp add: handlePreviousState_def)

lemma handlePreviousState_GOT_G:
  "state m = GOT_G \<Longrightarrow>
   handlePreviousState m = Some (m\<lparr>cargear := currentValue m, reverse := False, currentValue := 0\<rparr>)"
  by (simp add: handlePreviousState_def processGear_def)

lemma handlePreviousState_GOT_R:
  "state m = GOT_R \<Longrightarrow> handlePreviousState m = Some m' \<Longrightarrow>
   \<exists>level leds. m' = (processRPM (currentValue m) m)
      \<lparr>rpmleds := level, module_leds := leds, currentValue := 0\<rparr>"
  by (auto simp: handlePreviousState_def update_leds_def split: option.splits)

lemma handlePreviousState_simple:
  "state m \<noteq> GOT_R \<Longrightarrow>
   handlePreviousState m =
     Some ((pending_update m)
       \<lparr>reverse := (if state m = GOT_G then False else reverse m), currentValue := 0\<rparr>)"
  by (cases "state m")
    (simp_all add: handlePreviousState_def pending_update_def processMaxRPM_def
      processRPM_eq processWater_def processFuel_def processOil_def processSpeed_def
      processGear_def processLap_def processPos_def processStart_def processStop_def)

lemma handlePreviousState_currentValue:
  "handlePreviousState m = Some m' \<Longrightarrow> currentValue m' = 0 \<and> state m' = state m"
  by (auto simp: handlePreviousState_def update_leds_def processMaxRPM_def processRPM_def
      processWater_def processFuel_def processOil_def processSpeed_def processGear_def
      processLap_def processPos_def processStart_def processStop_def Let_def
      split: states.splits option.splits if_splits)


lemma handlePreviousState_rpmmax:
  "handlePreviousState m = Some m' \<Longrightarrow>
   rpmmax m' =
     (if state m = GOT_MAXRPM then currentValue m
      else if state m = GOT_START then 1000
      else if state m = GOT_R then rpmmax (processRPM (currentValue m) m)
      else rpmmax m)"
  by (auto simp: handlePreviousState_def update_leds_def
      processMaxRPM_def processWater_def processFuel_def processOil_def
      processSpeed_def processGear_def processLap_def processPos_def processStart_def
      processStop_def split: states.splits option.splits)


lemma handle_rpm_twice:
  assumes "state m = GOT_R" and "handlePreviousState m = Some m1"
  shows "handlePreviousState (m1\<lparr>currentValue := currentValue m\<rparr>) = Some m1"
proof -
  let ?p = "processRPM (currentValue m) m"
  from assms obtain level leds where l: "rpm_level ?p = Some level"
    and o: "led_loop 0 level (redleds ?p) 0 = Some leds"
    and m1: "m1 = ?p\<lparr>rpmleds := level, module_leds := leds, currentValue := 0\<rparr>"
    by (auto simp: handlePreviousState_def update_leds_def split: option.splits)
  let ?q = "?p\<lparr>rpmleds := level, module_leds := leds, currentValue := currentValue m\<rparr>"
  have q: "m1\<lparr>currentValue := currentValue m\<rparr> = ?q"
    by (simp add: m1)
  have st: "state ?q = GOT_R" "currentValue ?q = currentValue m"
    using assms(1) by (simp_all add: processRPM_eq)
  have p: "processRPM (currentValue m) ?q = ?q"
    by (simp add: processRPM_frame processRPM_idem)
  have "update_leds ?q = Some (?q\<lparr>rpmleds := level, module_leds := leds\<rparr>)"
    using rpm_level_after [OF l, where b = leds and c = "currentValue m"] o
    by (simp add: update_leds_def)
  then have "handlePreviousState ?q = Some m1"
    by (simp add: handlePreviousState_def st p m1)
  then show ?thesis by (simp only: q)
qed

lemma handle_other_twice:
  assumes "state m \<noteq> GOT_R" and "handlePreviousState m = Some m1"
  shows "handlePreviousState (m1\<lparr>currentValue := currentValue m\<rparr>) = Some m1"
    and "handlePreviousState (m1\<lparr>currentValue := currentValue m, reverse := reverse m\<rparr>) = Some m1"
proof -
  from assms(2) [unfolded handlePreviousState_simple [OF assms(1)]]
  have "(pending_update m)
       \<lparr>reverse := (if state m = GOT_G then False else reverse m), currentValue := 0\<rparr> = m1"
    by (simp only: option.inject)
  then have m1: "m1 = (pending_update m)
       \<lparr>reverse := (if state m = GOT_G then False else reverse m), currentValue := 0\<rparr>"
    by (rule sym)
  show "handlePreviousState (m1\<lparr>currentValue := currentValue m\<rparr>) = Some m1"
    using assms(1) unfolding m1
    by (cases "state m")
      (simp_all add: handlePreviousState_def pending_update_def processMaxRPM_def
        processWater_def processFuel_def processOil_def processSpeed_def
        processGear_def processLap_def processPos_def processStart_def processStop_def)
  show "handlePreviousState (m1\<lparr>currentValue := currentValue m, reverse := reverse m\<rparr>) = Some m1"
    using assms(1) unfolding m1
    by (cases "state m")
      (simp_all add: handlePreviousState_def pending_update_def processMaxRPM_def
        processWater_def processFuel_def processOil_def processSpeed_def
        processGear_def processLap_def processPos_def processStart_def processStop_def)
qed

lemma after_letter:
  assumes "\<not> isdigit c" and "c \<noteq> CHR ''-''" and "processIncomingByte c m = Some m0"
  shows "currentValue m0 = 0"
  using assms
  by (auto simp: processIncomingByte_other switch_byte_currentValue
      dest: handlePreviousState_currentValue)





subsection \<open>Byte sequences\<close>

lemma spelt_Nil: "spelt [] = 0"
  by (simp add: spelt_def)

lemma spelt_Cons: "spelt (d # ds) = digit_val d * 10 ^ length ds + spelt ds"
  by (simp add: spelt_def sum.lessThan_Suc_shift del: sum.lessThan_Suc)

lemma digit_word: "isdigit c \<Longrightarrow> (of_char c - 48 :: 16 word) = of_nat (digit_val c)"
  by (simp add: isdigit_def digit_val_def of_nat_diff of_nat_of_char)

lemma feed_digits:
  "list_all isdigit ds \<Longrightarrow>
   feed ds m = Some (m\<lparr>currentValue := currentValue m * 10 ^ length ds + of_nat (spelt ds)\<rparr>)"
proof (induction ds arbitrary: m)
  case Nil
  then show ?case by (simp add: spelt_Nil)
next
  case (Cons d ds)
  then have d: "isdigit d" and ds: "list_all isdigit ds" by simp_all
  show ?case
    by (simp add: processIncomingByte_digit [OF d] Cons.IH [OF ds] digit_word [OF d]
        spelt_Cons algebra_simps)
qed

lemma decode_digits:
  "list_all isdigit ds \<Longrightarrow>
   decode (ds @ rest) m =
     decode rest (m\<lparr>currentValue := currentValue m * 10 ^ length ds + of_nat (spelt ds)\<rparr>)"
proof (induction ds arbitrary: m)
  case Nil
  then show ?case by (simp add: spelt_Nil)
next
  case (Cons d ds)
  then have d: "isdigit d" and ds: "list_all isdigit ds" by simp_all
  have nil: "append (completes d m) = (\<lambda>x. x)" using d by (simp add: completes_def fun_eq_iff)
  show ?case
    by (simp add: processIncomingByte_digit [OF d] Cons.IH [OF ds] digit_word [OF d]
        spelt_Cons algebra_simps nil option.map_ident)
qed







lemma booted_eq:
  "booted = (power_on default_rom)"
  by (simp add: booted_def setup_board_def power_on_def default_rom_def)

subsection \<open>The buttons\<close>

lemma btn_distinct:
  "btn1 \<noteq> 0" "btn1 \<noteq> 255" "btn2 \<noteq> 0" "btn2 \<noteq> 255" "btn2 \<noteq> btn1"
  "btn5 \<noteq> 0" "btn5 \<noteq> 255" "btn5 \<noteq> btn1" "btn5 \<noteq> btn2" "btn5 \<noteq> btn3" "btn5 \<noteq> btn4"
  by (simp_all add: btn1_def btn2_def btn3_def btn4_def btn5_def)

lemma press_rpmmax: "buttons \<noteq> btn6 \<Longrightarrow> rpmmax (press buttons m) = rpmmax m"
  by (simp add: press_def)

lemma press_btn6: "rpmmax (press btn6 m) = 1000"
  by (simp add: press_def btn1_def btn2_def btn3_def btn4_def btn5_def btn6_def)

lemma press_rpmleds: "rpmleds (press buttons m) = rpmleds m"
  by (simp add: press_def)

text \<open>What does hold of the two cycles: seven kinds on either slot, nine red-LED counts.\<close>

lemma slot_cycle:
  "unat (leftindicator m) < 6 \<Longrightarrow> leftindicator (press btn1 m) = leftindicator m + 1"
  "\<not> unat (leftindicator m) < 6 \<Longrightarrow> leftindicator (press btn1 m) = 0"
  "unat (rightindicator m) < 6 \<Longrightarrow> rightindicator (press btn2 m) = rightindicator m + 1"
  "\<not> unat (rightindicator m) < 6 \<Longrightarrow> rightindicator (press btn2 m) = 0"
  by (simp_all add: press_def btn_distinct indicator_def)

lemma red_led_cycle:
  "redleds (press btn5 m) = of_nat ((unat (redleds m) + 1) mod 9)"
  by (simp add: press_def btn_distinct)

lemma red_led_steps:
  "unat (redleds (press btn5 m)) = (unat (redleds m) + 1) mod 9"
proof -
  have "(unat (redleds m) + 1) mod 9 < 9" by simp
  then have "(unat (redleds m) + 1) mod 9 mod 256 = (unat (redleds m) + 1) mod 9"
    by (intro mod_less) linarith
  then show ?thesis
    by (simp add: red_led_cycle unat_of_nat)
qed

lemma red_led_range: "unat (redleds (press btn5 m)) \<le> 8"
proof -
  have "(unat (redleds m) + 1) mod 9 < 9" by simp
  then show ?thesis by (simp only: red_led_steps)
qed

section \<open>The statements of the specification\<close>

subsection \<open>Commit on the next command\<close>




subsection \<open>Reverse gear\<close>

text \<open>
  Claim C2, as the sketch has it. The minus sign belongs between the letter and the digits.
  Fed from the idle state with an empty accumulator, \<open>-G3X\<close> completes two Gear commands:
  the first, when \<open>G\<close> arrives, has magnitude 0 and the latch set, and clears the latch; the
  second, when \<open>X\<close> arrives, has magnitude 3 and the latch clear. It is \<open>G-3X\<close> that
  completes, as its first Gear command, one of magnitude 3 with the latch set, and a
  following \<open>G3X\<close> completes Gear 3 with the latch clear.
\<close>

theorem gear_round_trip:
  "state m = NONE \<and> currentValue m = 0 \<longrightarrow>
     decode ''-G3X'' m = Some [(GOT_G, 0, True), (GOT_G, 3, False)]
     \<and> decode ''G-3X'' m = Some [(GOT_G, 3, True)]
     \<and> decode ''G-3XG3X'' m = Some [(GOT_G, 3, True), (GOT_G, 3, False)]"
  by (simp add: processIncomingByte_def isdigit_def completes_def handlePreviousState_def
      switch_byte_def processGear_def)

theorem gear_round_trip_witness:
  "(state booted = NONE \<and> currentValue booted = 0)
   \<and> decode ''-G3X'' booted = Some [(GOT_G, 0, True), (GOT_G, 3, False)]
   \<and> decode ''G-3X'' booted = Some [(GOT_G, 3, True)]
   \<and> decode ''G-3XG3X'' booted = Some [(GOT_G, 3, True), (GOT_G, 3, False)]"
proof -
  have h: "state booted = NONE \<and> currentValue booted = 0"
    by (simp add: booted_eq power_on_def)
  with gear_round_trip [of booted] show ?thesis
    by blast
qed

text \<open>
  The sequence of claim C2 on the booted board: the Gear command of magnitude 3 is the
  second one, and its latch is clear.
\<close>

theorem minus_before_letter_counterexample:
  "decode ''-G3X'' booted = Some [(GOT_G, 0, True), (GOT_G, 3, False)]"
  by (simp add: booted_eq power_on_def processIncomingByte_def isdigit_def completes_def
      handlePreviousState_def switch_byte_def processGear_def)

subsection \<open>The slot selectors\<close>

text \<open>
  Claim C3 at the input where the sketch departs from it. The table of selectable kinds
  has seven entries and \<open>P\<close> is not among them: a press of button 1 (or button 2) on the
  last entry, \<open>L\<close>, wraps the selector to \<open>S\<close>, and no press ever selects Position, although
  the \<^verbatim>\<open>GOT_P\<close> branch of \<^verbatim>\<open>handlePreviousState\<close> prints the position for a slot set to \<open>P\<close>.
\<close>

theorem slot_cycle_skips_position:
  "length indicator = 7 \<and> CHR ''P'' \<notin> set indicator
   \<and> slot_kind 6 = Some CHR ''L''
   \<and> slot_kind (leftindicator (press btn1 (m\<lparr>leftindicator := 6\<rparr>))) = Some CHR ''S''
   \<and> slot_kind (rightindicator (press btn2 (m\<lparr>rightindicator := 6\<rparr>))) = Some CHR ''S''
   \<and> (\<forall>i. slot_kind i \<noteq> Some CHR ''P'')"
proof -
  have p: "CHR ''P'' \<notin> set indicator"
    by (simp add: indicator_def)
  have "slot_kind i \<noteq> Some CHR ''P''" for i
  proof (cases "unat i < length indicator")
    case True
    then have "indicator ! unat i \<in> set indicator" by (rule nth_mem)
    with p have "indicator ! unat i \<noteq> CHR ''P''" by metis
    with True show ?thesis by (simp add: slot_kind_def)
  next
    case False
    then show ?thesis by (simp add: slot_kind_def)
  qed
  then show ?thesis
    using p by (simp add: indicator_def slot_kind_def press_def btn_distinct)
qed

subsection \<open>The fill level\<close>

text \<open>
  Claim C4, as the sketch has it. \<^verbatim>\<open>map\<close> does not clamp. For the styles 0 and 1, a ceiling
  other than 0 and an RPM that does not exceed \<^verbatim>\<open>rpmmax\<close> (which \<^verbatim>\<open>processRPM\<close> ensures for
  every value below 50000), the level is \<open>(rpm - floor) * 10 / (ceiling - floor)\<close> with the
  division truncated towards zero, where the floor is 0 and the ceiling \<open>11 * rpmmax div 10\<close>
  in style 0, and the floor is \<open>3 * rpmmax div 4\<close> and the ceiling \<^verbatim>\<open>rpmmax\<close> in style 1. The
  level is at most 10, it is 10 at the ceiling, it is at least 0 from the floor upwards,
  and below the floor it is at most 0 and negative as soon as the RPM is a tenth of the
  width of the domain below the floor; the loop then lights no LED. The level fits a
  \<^verbatim>\<open>long\<close>.
\<close>

theorem rpm_level_unclamped:
  assumes "rpmstyle m = 0 \<or> rpmstyle m = 1" and "rpmmax m \<noteq> 0"
    and "carrpm m \<le> rpmmax m"
  shows "bar_floor m = (if rpmstyle m = 0 then 0 else 3 * uint (rpmmax m) div 4)
    \<and> bar_ceiling m =
        (if rpmstyle m = 0 then 11 * uint (rpmmax m) div 10 else uint (rpmmax m))
    \<and> rpm_level m =
        Some ((uint (carrpm m) - bar_floor m) * 10 sdiv (bar_ceiling m - bar_floor m))
    \<and> (\<forall>level. rpm_level m = Some level \<longrightarrow>
          level \<le> 10 \<and> fits_long level
          \<and> (bar_floor m \<le> uint (carrpm m) \<longrightarrow> 0 \<le> level)
          \<and> (uint (carrpm m) = bar_ceiling m \<longrightarrow> level = 10)
          \<and> (uint (carrpm m) < bar_floor m \<longrightarrow>
               level \<le> 0
               \<and> update_leds m = Some (m\<lparr>rpmleds := level, module_leds := 0\<rparr>))
          \<and> (bar_ceiling m - bar_floor m \<le> (bar_floor m - uint (carrpm m)) * 10 \<longrightarrow>
               level < 0))"
proof -
  define level where
    "level = (uint (carrpm m) - bar_floor m) * 10 sdiv (bar_ceiling m - bar_floor m)"
  note d = bar_domain [OF assms(1)]
  from d assms(2) have lt: "bar_floor m < bar_ceiling m" by simp
  then have pos: "0 < bar_ceiling m - bar_floor m" by simp
  have l: "rpm_level m = Some level"
    using lt by (simp add: rpm_level_eq [OF assms(1)] map_long_def level_def)
  have f: "bar_floor m = (if rpmstyle m = 0 then 0 else 3 * uint (rpmmax m) div 4)"
    using assms(1) by (auto simp: bar_floor_style0 bar_floor_style1)
  have c: "bar_ceiling m =
      (if rpmstyle m = 0 then 11 * uint (rpmmax m) div 10 else uint (rpmmax m))"
    using assms(1) by (auto simp: bar_ceiling_style0_eq bar_ceiling_style1)
  have p: "(uint (carrpm m) \<le> bar_floor m \<longrightarrow> level \<le> 0)
      \<and> (bar_floor m \<le> uint (carrpm m) \<longrightarrow> 0 \<le> level)
      \<and> (uint (carrpm m) \<le> bar_ceiling m \<longrightarrow> level \<le> 10)
      \<and> (bar_ceiling m \<le> uint (carrpm m) \<longrightarrow> 10 \<le> level)"
    using scale_props [OF lt, of "uint (carrpm m)"] by (simp add: level_def)
  from assms(3) have "uint (carrpm m) \<le> uint (rpmmax m)" by (simp add: word_le_def)
  with d have le: "uint (carrpm m) \<le> bar_ceiling m" by linarith
  with p have l10: "level \<le> 10" by blast
  have fl: "fits_long level"
    using rpm_level_fits_long [OF assms(1)] l by blast
  have top: "level = 10" if "uint (carrpm m) = bar_ceiling m"
    unfolding level_def that using pos by (rule sdiv_self_times)
  have below: "level \<le> 0 \<and> update_leds m = Some (m\<lparr>rpmleds := level, module_leds := 0\<rparr>)"
    if "uint (carrpm m) < bar_floor m"
  proof -
    from p that have n: "level \<le> 0" by simp
    then have "led_loop 0 level (redleds m) 0 = Some 0" by (simp add: led_loop_stop)
    with l n show ?thesis by (simp add: update_leds_def)
  qed
  have neg: "level < 0"
    if "bar_ceiling m - bar_floor m \<le> (bar_floor m - uint (carrpm m)) * 10"
  proof -
    from that have "(uint (carrpm m) - bar_floor m) * 10 \<le> - (bar_ceiling m - bar_floor m)"
      by simp
    with pos show ?thesis unfolding level_def by (rule sdiv_neg_lt)
  qed
  have "level' \<le> 10 \<and> fits_long level'
      \<and> (bar_floor m \<le> uint (carrpm m) \<longrightarrow> 0 \<le> level')
      \<and> (uint (carrpm m) = bar_ceiling m \<longrightarrow> level' = 10)
      \<and> (uint (carrpm m) < bar_floor m \<longrightarrow>
           level' \<le> 0 \<and> update_leds m = Some (m\<lparr>rpmleds := level', module_leds := 0\<rparr>))
      \<and> (bar_ceiling m - bar_floor m \<le> (bar_floor m - uint (carrpm m)) * 10 \<longrightarrow> level' < 0)"
    if "rpm_level m = Some level'" for level'
  proof -
    from that l have "level' = level" by simp
    with l10 fl p top below neg show ?thesis by blast
  qed
  with f c l show ?thesis unfolding level_def by blast
qed

theorem rpm_level_unclamped_witness:
  "(rpmstyle (booted\<lparr>carrpm := 0\<rparr>) = 0 \<or> rpmstyle (booted\<lparr>carrpm := 0\<rparr>) = 1)
   \<and> rpmmax (booted\<lparr>carrpm := 0\<rparr>) \<noteq> 0
   \<and> carrpm (booted\<lparr>carrpm := 0\<rparr>) \<le> rpmmax (booted\<lparr>carrpm := 0\<rparr>)
   \<and> bar_floor (booted\<lparr>carrpm := 0\<rparr>) = 750
   \<and> bar_ceiling (booted\<lparr>carrpm := 0\<rparr>) = 1000
   \<and> uint (carrpm (booted\<lparr>carrpm := 0\<rparr>)) < bar_floor (booted\<lparr>carrpm := 0\<rparr>)
   \<and> rpm_level (booted\<lparr>carrpm := 0\<rparr>) = Some (- 30)
   \<and> update_leds (booted\<lparr>carrpm := 0\<rparr>) =
       Some (booted\<lparr>carrpm := 0, rpmleds := - 30, module_leds := 0\<rparr>)
   \<and> fits_long (- 30)"
proof -
  let ?m = "booted\<lparr>carrpm := 0\<rparr>"
  have h1: "rpmstyle ?m = 0 \<or> rpmstyle ?m = 1" and h2: "rpmmax ?m \<noteq> 0"
    and h3: "carrpm ?m \<le> rpmmax ?m"
    and s: "rpmstyle ?m \<noteq> 0" and r: "uint (rpmmax ?m) = 1000" and c: "uint (carrpm ?m) = 0"
    by (simp_all add: booted_eq power_on_def)
  note t = rpm_level_unclamped [OF h1 h2 h3]
  from t s r have f: "bar_floor ?m = 750" and g: "bar_ceiling ?m = 1000"
    by simp_all
  have h4: "uint (carrpm ?m) < bar_floor ?m"
    by (simp add: f c)
  from t have "rpm_level ?m =
      Some ((uint (carrpm ?m) - bar_floor ?m) * 10 sdiv (bar_ceiling ?m - bar_floor ?m))"
    by blast
  then have v: "rpm_level ?m = Some (- 30)"
    by (simp add: f g c signed_divide_int_def)
  from t v h4 have "update_leds ?m = Some (?m\<lparr>rpmleds := - 30, module_leds := 0\<rparr>)
      \<and> fits_long (- 30)"
    by blast
  with h1 h2 h3 f g h4 v show ?thesis
    by simp
qed

text \<open>
  On the booted board the sequence \<open>R0X\<close> leaves a level of -30, outside the range from
  0 to 10 of claim C4.
\<close>

theorem negative_level_counterexample:
  "map_option rpmleds (feed ''R0X'' booted) = Some (- 30)"
  by (simp add: booted_eq power_on_def processIncomingByte_def isdigit_def
      handlePreviousState_def switch_byte_def processRPM_def update_leds_def rpm_level_def
      map_long_def times_0_75_eq times_1_0_eq signed_divide_int_def led_loop_stop)

subsection \<open>The RPM ceiling\<close>

text \<open>
  Claim C5, as the sketch has it. Three operations overwrite \<^verbatim>\<open>rpmmax\<close>: the Start command
  and button 6 set it to 1000, and the \<open>T\<close> command sets it to its operand, which may be
  lower than the value it replaces. Every other completed command, every digit and \<open>-\<close>
  byte and every other button leave \<^verbatim>\<open>rpmmax\<close> at least as high as it was; the RPM command
  alone can raise it.
\<close>

theorem ceiling_monotone_except_overwrites:
  "(\<forall>m'. handlePreviousState m = Some m' \<and> state m \<noteq> GOT_START \<and> state m \<noteq> GOT_MAXRPM \<longrightarrow>
      rpmmax m \<le> rpmmax m')
   \<and> (\<forall>m'. handlePreviousState m = Some m' \<and> state m = GOT_MAXRPM \<longrightarrow>
      rpmmax m' = currentValue m)
   \<and> (\<forall>m'. handlePreviousState m = Some m' \<and> state m = GOT_START \<longrightarrow> rpmmax m' = 1000)
   \<and> rpmmax m \<le> rpmmax (processRPM v m)
   \<and> (isdigit c \<or> c = CHR ''-'' \<longrightarrow>
        map_option rpmmax (processIncomingByte c m) = Some (rpmmax m))
   \<and> (buttons \<noteq> btn6 \<longrightarrow> rpmmax (press buttons m) = rpmmax m)
   \<and> rpmmax (press btn6 m) = 1000"
proof (intro conjI impI allI)
  fix m'
  assume "handlePreviousState m = Some m' \<and> state m \<noteq> GOT_START \<and> state m \<noteq> GOT_MAXRPM"
  then show "rpmmax m \<le> rpmmax m'"
    using processRPM_mono [of m "currentValue m"]
    by (auto dest!: handlePreviousState_rpmmax split: if_splits)
next
  fix m'
  assume "handlePreviousState m = Some m' \<and> state m = GOT_MAXRPM"
  then show "rpmmax m' = currentValue m"
    by (auto dest!: handlePreviousState_rpmmax)
next
  fix m'
  assume "handlePreviousState m = Some m' \<and> state m = GOT_START"
  then show "rpmmax m' = 1000"
    by (auto dest!: handlePreviousState_rpmmax)
next
  show "rpmmax m \<le> rpmmax (processRPM v m)"
    by (rule processRPM_mono)
next
  assume "isdigit c \<or> c = CHR ''-''"
  then show "map_option rpmmax (processIncomingByte c m) = Some (rpmmax m)"
    by (auto simp: processIncomingByte_digit processIncomingByte_minus)
next
  assume "buttons \<noteq> btn6"
  then show "rpmmax (press buttons m) = rpmmax m"
    by (rule press_rpmmax)
next
  show "rpmmax (press btn6 m) = 1000"
    by (rule press_btn6)
qed

theorem ceiling_monotone_except_overwrites_witness:
  "(handlePreviousState (booted\<lparr>state := GOT_S, currentValue := 95\<rparr>) =
       Some (booted\<lparr>state := GOT_S, carspeed := 95\<rparr>)
     \<and> state (booted\<lparr>state := GOT_S, currentValue := 95\<rparr>) \<noteq> GOT_START
     \<and> state (booted\<lparr>state := GOT_S, currentValue := 95\<rparr>) \<noteq> GOT_MAXRPM)
   \<and> rpmmax (booted\<lparr>state := GOT_S, currentValue := 95\<rparr>)
       \<le> rpmmax (booted\<lparr>state := GOT_S, carspeed := 95\<rparr>)
   \<and> isdigit CHR ''7''
   \<and> map_option rpmmax (processIncomingByte CHR ''7'' (booted\<lparr>state := GOT_S, currentValue := 95\<rparr>))
       = Some (rpmmax (booted\<lparr>state := GOT_S, currentValue := 95\<rparr>))
   \<and> btn5 \<noteq> btn6
   \<and> rpmmax (press btn5 (booted\<lparr>state := GOT_S, currentValue := 95\<rparr>))
       = rpmmax (booted\<lparr>state := GOT_S, currentValue := 95\<rparr>)"
proof -
  let ?m = "booted\<lparr>state := GOT_S, currentValue := 95\<rparr>"
  have h1: "handlePreviousState ?m = Some (booted\<lparr>state := GOT_S, carspeed := 95\<rparr>)
     \<and> state ?m \<noteq> GOT_START \<and> state ?m \<noteq> GOT_MAXRPM"
    by (simp add: booted_eq power_on_def handlePreviousState_def processSpeed_def)
  have h2: "isdigit CHR ''7''"
    by (simp add: isdigit_def)
  have h3: "btn5 \<noteq> btn6"
    by (simp add: btn5_def btn6_def)
  note t = ceiling_monotone_except_overwrites [of ?m 0 "CHR ''7''" btn5]
  from t h1 have c1: "rpmmax ?m \<le> rpmmax (booted\<lparr>state := GOT_S, carspeed := 95\<rparr>)"
    by blast
  from t h2 have c2: "map_option rpmmax (processIncomingByte CHR ''7'' ?m) = Some (rpmmax ?m)"
    by blast
  from t h3 have c3: "rpmmax (press btn5 ?m) = rpmmax ?m"
    by blast
  from h1 h2 h3 c1 c2 c3 show ?thesis
    by blast
qed

text \<open>
  On the booted board the \<open>T\<close> command of claim C5 lowers the ceiling from 1000 to 10.
\<close>

theorem ceiling_lowered_counterexample:
  "rpmmax booted = 1000 \<and> map_option rpmmax (feed ''T10X'' booted) = Some 10"
  by (simp add: booted_eq power_on_def processIncomingByte_def isdigit_def
      handlePreviousState_def switch_byte_def processMaxRPM_def)

subsection \<open>The RPM command\<close>

text \<open>
  Claim C6. \<^verbatim>\<open>processRPM\<close> stores every value in the RPM register, also one of 50000 or
  more. It sets \<^verbatim>\<open>rpmmax\<close> to the value exactly when the value is above \<^verbatim>\<open>rpmmax\<close> and
  below 50000, and leaves \<^verbatim>\<open>rpmmax\<close> alone otherwise. Both registers hold these values when
  \<^verbatim>\<open>handlePreviousState\<close> returns from a pending RPM command.
\<close>

theorem rpm_stored_ceiling_raised:
  "carrpm (processRPM v m) = v
   \<and> rpmmax (processRPM v m) = (if rpmmax m < v \<and> uint v < 50000 then v else rpmmax m)
   \<and> (state m = GOT_R \<longrightarrow>
        pending_update m = processRPM (currentValue m) m
        \<and> (\<forall>m'. handlePreviousState m = Some m' \<longrightarrow>
              carrpm m' = currentValue m
              \<and> rpmmax m' =
                  (if rpmmax m < currentValue m \<and> uint (currentValue m) < 50000
                   then currentValue m else rpmmax m)))"
proof (intro conjI impI allI)
  show "carrpm (processRPM v m) = v"
    by (rule processRPM_carrpm)
  show "rpmmax (processRPM v m) = (if rpmmax m < v \<and> uint v < 50000 then v else rpmmax m)"
    by (rule processRPM_rpmmax)
next
  assume "state m = GOT_R"
  then show "pending_update m = processRPM (currentValue m) m"
    by (simp add: pending_update_def)
next
  fix m'
  assume "state m = GOT_R" and "handlePreviousState m = Some m'"
  then obtain level leds where m': "m' = (processRPM (currentValue m) m)
      \<lparr>rpmleds := level, module_leds := leds, currentValue := 0\<rparr>"
    using handlePreviousState_GOT_R by blast
  show "carrpm m' = currentValue m"
    by (simp add: m' processRPM_carrpm)
  show "rpmmax m' =
      (if rpmmax m < currentValue m \<and> uint (currentValue m) < 50000
       then currentValue m else rpmmax m)"
    by (simp add: m' processRPM_rpmmax)
qed

theorem rpm_stored_ceiling_raised_witness:
  "state (booted\<lparr>state := GOT_R, currentValue := 4250\<rparr>) = GOT_R
   \<and> handlePreviousState (booted\<lparr>state := GOT_R, currentValue := 4250\<rparr>) =
       Some (booted\<lparr>state := GOT_R, carrpm := 4250, rpmmax := 4250, rpmleds := 10,
                    module_leds := 0xFF00\<rparr>)
   \<and> carrpm (booted\<lparr>state := GOT_R, carrpm := 4250, rpmmax := 4250, rpmleds := 10,
                    module_leds := 0xFF00\<rparr>) = 4250
   \<and> carrpm (processRPM 60000 booted) = 60000
   \<and> rpmmax (processRPM 60000 booted) = 1000"
proof -
  let ?m = "booted\<lparr>state := GOT_R, currentValue := 4250\<rparr>"
  let ?m' = "booted\<lparr>state := GOT_R, carrpm := 4250, rpmmax := 4250, rpmleds := 10,
                    module_leds := 0xFF00\<rparr>"
  have s: "state ?m = GOT_R"
    by simp
  have l: "led_loop 0 10 3 0 = Some 0xFF00"
    by (simp add: led_loop.simps led_step_def)
  have h: "handlePreviousState ?m = Some ?m'"
    by (simp add: booted_eq power_on_def handlePreviousState_def processRPM_eq update_leds_def
        rpm_level_def map_long_def times_0_75_eq times_1_0_eq signed_divide_int_def l
        word_less_def)
  have v: "currentValue ?m = 4250"
    by simp
  from rpm_stored_ceiling_raised [of 0 ?m] s h have "carrpm ?m' = currentValue ?m"
    by blast
  then have c: "carrpm ?m' = 4250"
    by (simp only: v)
  have "carrpm (processRPM 60000 booted) = 60000
      \<and> rpmmax (processRPM 60000 booted) =
          (if rpmmax booted < 60000 \<and> uint (60000 :: 16 word) < 50000 then 60000
           else rpmmax booted)"
    using rpm_stored_ceiling_raised [of 60000 booted] by blast
  then have "carrpm (processRPM 60000 booted) = 60000 \<and> rpmmax (processRPM 60000 booted) = 1000"
    by (simp add: booted_eq power_on_def)
  with s h c show ?thesis by blast
qed

subsection \<open>The mask at level 10\<close>

text \<open>
  Claim C7. With a level of 10 the loop runs for \<open>i\<close> from 0 to 9 and the red rule fires at
  every step, whatever the number of red LEDs, because the level is at least 9. The steps
  0 to 7 set the bits 8 to 15; the steps 8 and 9 shift the bit out of the 16-bit mask and
  add nothing. The mask handed to \<^verbatim>\<open>setLEDs\<close> is \<open>0xFF00\<close>: exactly the bits 8 to 15.
\<close>

theorem level_10_all_red:
  "led_loop 0 10 red 0 = Some 0xFF00
   \<and> (\<forall>n. bit (0xFF00 :: 16 word) n \<longleftrightarrow> 8 \<le> n \<and> n < 16)
   \<and> (\<forall>i leds. led_step i 10 red leds = leds + push_bit (unat (i + 8)) 1)
   \<and> (\<forall>leds. led_step 8 10 red leds = leds \<and> led_step 9 10 red leds = leds)
   \<and> (rpm_level m = Some 10 \<longrightarrow>
        update_leds m = Some (m\<lparr>rpmleds := 10, module_leds := 0xFF00\<rparr>))"
proof -
  have l: "led_loop 0 10 red 0 = Some 0xFF00" for red
    by (simp add: led_loop.simps led_step_def)
  have "bit (0xFF00 :: 16 word) n \<longleftrightarrow> 8 \<le> n \<and> n < 16" for n
    unfolding red_mask by (auto simp: bit_push_bit_iff bit_mask_iff)
  moreover have "led_step i 10 red leds = leds + push_bit (unat (i + 8)) 1" for i leds
    by (simp add: led_step_def)
  moreover have "led_step 8 10 red leds = leds \<and> led_step 9 10 red leds = leds" for leds
    by (simp add: led_step_def)
  moreover have "update_leds m = Some (m\<lparr>rpmleds := 10, module_leds := 0xFF00\<rparr>)"
    if "rpm_level m = Some 10"
    using that by (simp add: update_leds_def l)
  ultimately show ?thesis using l by blast
qed

theorem level_10_all_red_witness:
  "rpm_level (booted\<lparr>rpmmax := 4000, carrpm := 4000\<rparr>) = Some 10
   \<and> update_leds (booted\<lparr>rpmmax := 4000, carrpm := 4000\<rparr>) =
       Some (booted\<lparr>rpmmax := 4000, carrpm := 4000, rpmleds := 10, module_leds := 0xFF00\<rparr>)"
proof -
  let ?m = "booted\<lparr>rpmmax := 4000, carrpm := 4000\<rparr>"
  have h: "rpm_level ?m = Some 10"
    by (simp add: booted_eq power_on_def rpm_level_def map_long_def times_0_75_eq
        times_1_0_eq signed_divide_int_def)
  with level_10_all_red [of _ ?m]
  have "update_leds ?m = Some (?m\<lparr>rpmleds := 10, module_leds := 0xFF00\<rparr>)"
    by blast
  with h show ?thesis by simp
qed

subsection \<open>The operand\<close>

text \<open>
  Claim C8, as the sketch has it. After a command letter the accumulator is 0. The digit
  bytes that follow leave in it the integer they spell, reduced modulo \<open>2 ^ 16\<close> because the
  accumulator is a 16-bit \<^verbatim>\<open>int\<close> and nothing checks for overflow; the next terminating
  byte completes the pending command with that operand. The operand is the spelt integer
  itself whenever that is below 65536.
\<close>

theorem operand_is_spelt_mod_2_16:
  assumes "\<not> isdigit c" and "c \<noteq> CHR ''-''" and "processIncomingByte c m = Some m0"
    and "list_all isdigit ds" and "\<not> isdigit t" and "t \<noteq> CHR ''-''"
  shows "feed ds m0 = Some (m0\<lparr>currentValue := of_nat (spelt ds)\<rparr>)
    \<and> (state m0 \<noteq> NONE \<longrightarrow>
         completes t (m0\<lparr>currentValue := of_nat (spelt ds)\<rparr>) =
           [(state m0, of_nat (spelt ds), reverse m0)])
    \<and> operand (state m0, of_nat (spelt ds), reverse m0) = spelt ds mod 65536
    \<and> (spelt ds < 65536 \<longrightarrow> operand (state m0, of_nat (spelt ds), reverse m0) = spelt ds)"
proof -
  have z: "currentValue m0 = 0"
    using assms(1-3) by (rule after_letter)
  have "feed ds m0 = Some (m0\<lparr>currentValue := of_nat (spelt ds)\<rparr>)"
    by (simp add: feed_digits [OF assms(4)] z)
  moreover have "state m0 \<noteq> NONE \<longrightarrow>
      completes t (m0\<lparr>currentValue := of_nat (spelt ds)\<rparr>) =
        [(state m0, of_nat (spelt ds), reverse m0)]"
    using assms(5,6) by (simp add: completes_def)
  moreover have "operand (state m0, of_nat (spelt ds), reverse m0) = spelt ds mod 65536"
    by (simp add: operand_def unat_of_nat)
  ultimately show ?thesis
    by simp
qed

theorem operand_is_spelt_mod_2_16_witness:
  "\<not> isdigit CHR ''S'' \<and> CHR ''S'' \<noteq> CHR ''-''
   \<and> processIncomingByte CHR ''S'' (booted\<lparr>state := GOT_START, currentValue := 5\<rparr>)
       = Some (booted\<lparr>state := GOT_S\<rparr>)
   \<and> list_all isdigit ''95'' \<and> \<not> isdigit CHR ''G'' \<and> CHR ''G'' \<noteq> CHR ''-''
   \<and> state (booted\<lparr>state := GOT_S\<rparr>) \<noteq> NONE
   \<and> spelt ''95'' < 65536
   \<and> feed ''95'' (booted\<lparr>state := GOT_S\<rparr>) = Some (booted\<lparr>state := GOT_S, currentValue := 95\<rparr>)
   \<and> completes CHR ''G'' (booted\<lparr>state := GOT_S, currentValue := 95\<rparr>) = [(GOT_S, 95, False)]
   \<and> operand (GOT_S, 95, False) = 95"
proof -
  have h1: "\<not> isdigit CHR ''S''" and h2: "CHR ''S'' \<noteq> CHR ''-''"
    and h4: "list_all isdigit ''95''" and h5: "\<not> isdigit CHR ''G''"
    and h6: "CHR ''G'' \<noteq> CHR ''-''"
    by (simp_all add: isdigit_def)
  have h3: "processIncomingByte CHR ''S'' (booted\<lparr>state := GOT_START, currentValue := 5\<rparr>)
       = Some (booted\<lparr>state := GOT_S\<rparr>)"
    by (simp add: booted_eq power_on_def processIncomingByte_def isdigit_def
        handlePreviousState_def switch_byte_def processStart_def)
  have s: "spelt ''95'' = 95"
    by (simp add: spelt_def digit_val_def)
  have r: "reverse (booted\<lparr>state := GOT_S\<rparr>) = False" "state (booted\<lparr>state := GOT_S\<rparr>) = GOT_S"
    by (simp_all add: booted_eq power_on_def)
  note t = operand_is_spelt_mod_2_16 [OF h1 h2 h3 h4 h5 h6]
  from t h1 h2 h3 h4 h5 h6 show ?thesis
    by (simp add: s r)
qed

text \<open>
  The digits of claim C8 may spell more than the accumulator holds: \<open>S70000G\<close> completes a
  Speed command whose operand is 4464, while its digits spell 70000.
\<close>

theorem operand_overflow_counterexample:
  "map_option (map operand) (decode ''S70000G'' booted) = Some [4464]
   \<and> spelt ''70000'' = 70000"
  by (simp add: booted_eq power_on_def processIncomingByte_def isdigit_def completes_def
      handlePreviousState_def switch_byte_def processSpeed_def operand_def spelt_def
      digit_val_def)

text \<open>The example of claim C8, from the idle state.\<close>

lemma speed_example:
  "state m = NONE \<Longrightarrow>
   decode ''Y5S95G'' m = Some [(GOT_START, 5, reverse m), (GOT_S, 95, reverse m)]"
  by (simp add: processIncomingByte_def isdigit_def completes_def
      handlePreviousState_def switch_byte_def processSpeed_def processStart_def)

subsection \<open>Applying a command twice\<close>

text \<open>
  Claim C9. When \<^verbatim>\<open>handlePreviousState\<close> has applied the pending command, applying the same
  command again to the result, with the same operand (and the same latch), returns and
  changes nothing: not the telemetry registers, the latch or \<^verbatim>\<open>rpmmax\<close>, and not the LED
  mask either. The second \<^verbatim>\<open>processRPM\<close> finds the value no longer above \<^verbatim>\<open>rpmmax\<close>, or still
  out of the range that raises it.
\<close>

theorem apply_twice:
  "(\<forall>m1. handlePreviousState m = Some m1 \<longrightarrow>
      handlePreviousState (m1\<lparr>currentValue := currentValue m\<rparr>) = Some m1
      \<and> handlePreviousState (m1\<lparr>currentValue := currentValue m, reverse := reverse m\<rparr>) = Some m1
      \<and> map_option snapshot (handlePreviousState (m1\<lparr>currentValue := currentValue m\<rparr>))
          = Some (snapshot m1))
   \<and> processRPM v (processRPM v m) = processRPM v m
   \<and> rpmmax (processRPM v (processRPM v m)) = rpmmax (processRPM v m)"
proof (intro conjI allI impI)
  fix m1
  assume h: "handlePreviousState m = Some m1"
  show a: "handlePreviousState (m1\<lparr>currentValue := currentValue m\<rparr>) = Some m1"
  proof (cases "state m = GOT_R")
    case True
    then show ?thesis using h by (rule handle_rpm_twice)
  next
    case False
    then show ?thesis using h by (rule handle_other_twice)
  qed
  show "handlePreviousState (m1\<lparr>currentValue := currentValue m, reverse := reverse m\<rparr>) = Some m1"
  proof (cases "state m = GOT_R")
    case True
    from handlePreviousState_GOT_R [OF True h] have "reverse m1 = reverse m"
      by (auto simp: processRPM_eq)
    then have "m1\<lparr>currentValue := currentValue m, reverse := reverse m\<rparr>
        = m1\<lparr>currentValue := currentValue m\<rparr>"
      by (cases m1) simp
    with a show ?thesis by (simp only:)
  next
    case False
    then show ?thesis using h by (rule handle_other_twice)
  qed
  show "map_option snapshot (handlePreviousState (m1\<lparr>currentValue := currentValue m\<rparr>))
      = Some (snapshot m1)"
    by (simp only: a option.map)
next
  show "processRPM v (processRPM v m) = processRPM v m"
    by (rule processRPM_idem)
  then show "rpmmax (processRPM v (processRPM v m)) = rpmmax (processRPM v m)"
    by (simp only:)
qed

theorem apply_twice_witness:
  "handlePreviousState (booted\<lparr>state := GOT_R, currentValue := 4250\<rparr>) =
       Some (booted\<lparr>state := GOT_R, carrpm := 4250, rpmmax := 4250, rpmleds := 10,
                    module_leds := 0xFF00\<rparr>)
   \<and> handlePreviousState (booted\<lparr>state := GOT_R, carrpm := 4250, rpmmax := 4250,
          rpmleds := 10, module_leds := 0xFF00, currentValue := 4250\<rparr>) =
       Some (booted\<lparr>state := GOT_R, carrpm := 4250, rpmmax := 4250, rpmleds := 10,
                    module_leds := 0xFF00\<rparr>)"
proof -
  let ?m = "booted\<lparr>state := GOT_R, currentValue := 4250\<rparr>"
  let ?m' = "booted\<lparr>state := GOT_R, carrpm := 4250, rpmmax := 4250, rpmleds := 10,
                    module_leds := 0xFF00\<rparr>"
  have l: "led_loop 0 10 3 0 = Some 0xFF00"
    by (simp add: led_loop.simps led_step_def)
  have h: "handlePreviousState ?m = Some ?m'"
    by (simp add: booted_eq power_on_def handlePreviousState_def processRPM_eq update_leds_def
        rpm_level_def map_long_def times_0_75_eq times_1_0_eq signed_divide_int_def l
        word_less_def)
  from apply_twice [of ?m 0] h
  have "handlePreviousState (?m'\<lparr>currentValue := currentValue ?m\<rparr>) = Some ?m'"
    by blast
  then have "handlePreviousState (?m'\<lparr>currentValue := 4250\<rparr>) = Some ?m'"
    by simp
  with h show ?thesis by simp
qed

subsection \<open>The minus sign\<close>

text \<open>
  Claim C10. A \<open>-\<close> byte does not call \<^verbatim>\<open>handlePreviousState\<close>: the pending command is
  not completed, no register changes, and the accumulated operand is not cleared. The byte
  sets the reverse latch and makes Gear the pending command, so the digits that follow
  extend the operand already accumulated and the next terminating byte completes a Gear
  command carrying all of them. Fed from the idle state, \<open>S95-2X\<close> completes no Speed
  command, leaves the speed register alone and completes Gear with operand 952 and the
  latch set.
\<close>

theorem minus_keeps_operand:
  "processIncomingByte CHR ''-'' m = Some (m\<lparr>reverse := True, state := GOT_G\<rparr>)
   \<and> completes CHR ''-'' m = []
   \<and> (list_all isdigit ds \<and> \<not> isdigit t \<and> t \<noteq> CHR ''-'' \<longrightarrow>
        decode (CHR ''-'' # ds @ [t]) m =
          Some [(GOT_G, currentValue m * 10 ^ length ds + of_nat (spelt ds), True)])
   \<and> (state m = NONE \<longrightarrow>
        decode ''S95-2X'' m = Some [(GOT_G, 952, True)]
        \<and> map_option carspeed (feed ''S95-2X'' m) = Some (carspeed m))"
proof (intro conjI impI)
  show "processIncomingByte CHR ''-'' m = Some (m\<lparr>reverse := True, state := GOT_G\<rparr>)"
    by (rule processIncomingByte_minus)
  show "completes CHR ''-'' m = []"
    by (simp add: completes_def)
next
  assume a: "list_all isdigit ds \<and> \<not> isdigit t \<and> t \<noteq> CHR ''-''"
  then have ds: "list_all isdigit ds" and t: "\<not> isdigit t" "t \<noteq> CHR ''-''" by simp_all
  show "decode (CHR ''-'' # ds @ [t]) m =
          Some [(GOT_G, currentValue m * 10 ^ length ds + of_nat (spelt ds), True)]"
    using t
    by (simp add: processIncomingByte_minus decode_digits [OF ds] processIncomingByte_other
        handlePreviousState_GOT_G completes_def)
next
  assume idle: "state m = NONE"
  then show "decode ''S95-2X'' m = Some [(GOT_G, 952, True)]"
    by (simp add: processIncomingByte_def isdigit_def completes_def handlePreviousState_def
        switch_byte_def processGear_def)
  from idle show "map_option carspeed (feed ''S95-2X'' m) = Some (carspeed m)"
    by (simp add: processIncomingByte_def isdigit_def handlePreviousState_def
        switch_byte_def processGear_def)
qed

theorem minus_keeps_operand_witness:
  "(list_all isdigit ''2'' \<and> \<not> isdigit CHR ''X'' \<and> CHR ''X'' \<noteq> CHR ''-'')
   \<and> state booted = NONE
   \<and> decode ''-2X'' booted = Some [(GOT_G, 2, True)]
   \<and> decode ''S95-2X'' booted = Some [(GOT_G, 952, True)]
   \<and> map_option carspeed (feed ''S95-2X'' booted) = Some 0"
proof -
  note t = minus_keeps_operand [of booted "''2''" "CHR ''X''"]
  have h1: "list_all isdigit ''2'' \<and> \<not> isdigit CHR ''X'' \<and> CHR ''X'' \<noteq> CHR ''-''"
    by (simp add: isdigit_def)
  have h2: "state booted = NONE"
    by (simp add: booted_eq power_on_def)
  have v: "currentValue booted * 10 ^ length ''2'' + of_nat (spelt ''2'') = 2"
    by (simp add: booted_eq power_on_def spelt_def digit_val_def)
  have c: "carspeed booted = 0"
    by (simp add: booted_eq power_on_def)
  have s: "CHR ''-'' # ''2'' @ [CHR ''X''] = ''-2X''"
    by simp
  from t h1 have "decode (CHR ''-'' # ''2'' @ [CHR ''X'']) booted =
      Some [(GOT_G, currentValue booted * 10 ^ length ''2'' + of_nat (spelt ''2''), True)]"
    by blast
  then have d1: "decode ''-2X'' booted = Some [(GOT_G, 2, True)]"
    by (simp only: v s)
  from t h2 have d2: "decode ''S95-2X'' booted = Some [(GOT_G, 952, True)]"
    and d3: "map_option carspeed (feed ''S95-2X'' booted) = Some (carspeed booted)"
    by blast+
  from h1 h2 d1 d2 d3 show ?thesis
    by (simp only: c simp_thms)
qed

end
